theory Spec2Isabelle
  imports Main "HOL-Library.Word"
begin

section \<open>JavaScript strings\<close>

text \<open>
  A JavaScript string is a sequence of UTF-16 code units. \<open>String.prototype.trim\<close>
  removes the ECMAScript WhiteSpace and LineTerminator code points from both ends; all of
  them lie in the Basic Multilingual Plane, so the test is one on single code units.
  A string is falsy exactly when it is empty.
\<close>

type_synonym jsstring = "16 word list"

definition isWhiteSpace :: "16 word \<Rightarrow> bool" where
  "isWhiteSpace c =
     (c = 0x0009 \<or> c = 0x000A \<or> c = 0x000B \<or> c = 0x000C \<or> c = 0x000D \<or> c = 0x0020 \<or>
      c = 0x00A0 \<or> c = 0x1680 \<or> (0x2000 \<le> c \<and> c \<le> 0x200A) \<or> c = 0x2028 \<or>
      c = 0x2029 \<or> c = 0x202F \<or> c = 0x205F \<or> c = 0x3000 \<or> c = 0xFEFF)"

definition trim :: "jsstring \<Rightarrow> jsstring" where
  "trim s = rev (dropWhile isWhiteSpace (rev (dropWhile isWhiteSpace s)))"

text \<open>String literals of the source that are plain ASCII, as code units.\<close>

definition utf16 :: "string \<Rightarrow> jsstring" where
  "utf16 cs = map (\<lambda>c. of_nat (of_char c)) cs"

section \<open>types.ts\<close>

datatype SupportedLanguage = CHINESE_TRADITIONAL | ENGLISH | SPANISH | JAPANESE

definition TARGET_LANGUAGES :: "SupportedLanguage list" where
  "TARGET_LANGUAGES = [CHINESE_TRADITIONAL, ENGLISH, JAPANESE, SPANISH]"

section \<open>services/geminiService.ts: streamTranslation\<close>

text \<open>
  The external streaming call is given as the data it produces: the \<open>text\<close> field of each
  chunk the result stream yields (\<open>None\<close> when the field is undefined) and how the stream
  ends. A failure of \<open>sendMessageStream\<close> itself is a stream with no chunks that ends in
  \<open>Threw\<close>. The \<open>catch\<close> of \<open>streamTranslation\<close> logs and rethrows, so the outcome of the
  stream is the outcome of the call.
\<close>

datatype outcome = Completed | Threw

type_synonym resultStream = "jsstring option list \<times> outcome"

text \<open>The body of the \<open>for await\<close> loop (lines 48-53): the callback runs on truthy text only.\<close>

definition chunkBody :: "(jsstring \<Rightarrow> 'st \<Rightarrow> 'st) \<Rightarrow> jsstring option \<Rightarrow> 'st \<Rightarrow> 'st" where
  "chunkBody onChunk chunk_text st =
     (case chunk_text of
        None \<Rightarrow> st
      | Some chunkText \<Rightarrow> if chunkText \<noteq> [] then onChunk chunkText st else st)"

definition streamTranslation ::
  "jsstring \<Rightarrow> SupportedLanguage \<Rightarrow> (jsstring \<Rightarrow> 'st \<Rightarrow> 'st) \<Rightarrow> resultStream \<Rightarrow> 'st \<Rightarrow> outcome \<times> 'st" where
  "streamTranslation text targetLanguage onChunk stream st =
     (if trim text = [] then (Completed, st)
      else (snd stream, fold (chunkBody onChunk) (fst stream) st))"

text \<open>A callback that records the arguments it is called with, in call order.\<close>

definition recordCall :: "jsstring \<Rightarrow> jsstring list \<Rightarrow> jsstring list" where
  "recordCall chunkText calls = calls @ [chunkText]"

section \<open>App.tsx: the application state\<close>

text \<open>
  The component state of \<open>App\<close> (\<open>translations\<close>, \<open>isStreaming\<close>, \<open>error\<close>), the ref
  \<open>currentRequestId\<close>, and what the asynchronous runtime holds for the calls in flight:
  for every request id the array \<open>promises\<close> built at line 67, one promise per target
  language, and the requests handed to the network. State setters are applied in call
  order. The counter is a JavaScript number; it counts exactly below \<open>2^53\<close> and is a
  natural number here.
\<close>

datatype promise = Pending | Fulfilled | Rejected

record app =
  translations_state :: "SupportedLanguage \<Rightarrow> jsstring"
  isStreaming :: bool
  error :: "jsstring option"
  currentRequestId :: nat
  promises :: "nat \<rightharpoonup> (SupportedLanguage \<times> promise) list"
  sent :: "(SupportedLanguage \<times> jsstring) list"

definition emptyTranslations :: "SupportedLanguage \<Rightarrow> jsstring" where
  "emptyTranslations = (\<lambda>lang. [])"

definition init :: app where
  "init = \<lparr>translations_state = emptyTranslations, isStreaming = False, error = None,
           currentRequestId = 0, promises = Map.empty, sent = []\<rparr>"

subsection \<open>The request generation guard\<close>

text \<open>\<open>++currentRequestId.current\<close> (line 53) and \<open>currentRequestId.current === requestId\<close>
  (lines 71, 88, 92).\<close>

definition beginGeneration :: "app \<Rightarrow> nat \<times> app" where
  "beginGeneration s = (currentRequestId s + 1, s\<lparr>currentRequestId := currentRequestId s + 1\<rparr>)"

definition isCurrent :: "app \<Rightarrow> nat \<Rightarrow> bool" where
  "isCurrent s requestId = (currentRequestId s = requestId)"

fun beginGenerations :: "nat \<Rightarrow> app \<Rightarrow> nat list \<times> app" where
  "beginGenerations 0 s = ([], s)"
| "beginGenerations (Suc k) s =
     (case beginGeneration s of (requestId, s1) \<Rightarrow>
        (case beginGenerations k s1 of (ids, s2) \<Rightarrow> (requestId # ids, s2)))"

subsection \<open>performTranslation\<close>

text \<open>The chunk callback passed to \<open>streamTranslation\<close> (lines 69-77).\<close>

definition onChunk :: "nat \<Rightarrow> SupportedLanguage \<Rightarrow> jsstring \<Rightarrow> app \<Rightarrow> app" where
  "onChunk requestId lang chunk s =
     (if isCurrent s requestId
      then s\<lparr>translations_state := (translations_state s)(lang := translations_state s lang @ chunk)\<rparr>
      else s)"

text \<open>
  \<open>streamTranslation\<close> up to its first \<open>await\<close> (lines 13-46): nothing happens for blank
  text, otherwise the request goes out and the call is pending.
\<close>

definition streamTranslation_call ::
  "jsstring \<Rightarrow> SupportedLanguage \<Rightarrow> (SupportedLanguage \<times> jsstring) list
     \<Rightarrow> outcome option \<times> (SupportedLanguage \<times> jsstring) list" where
  "streamTranslation_call text targetLanguage net =
     (if trim text = [] then (Some Completed, net) else (None, net @ [(targetLanguage, text)]))"

text \<open>
  The \<open>async (lang) => { try { await streamTranslation(...) } catch (e) { console.error(...) } }\<close>
  of lines 67-82: whatever the stream does, the promise of this function is fulfilled.
\<close>

definition langTask :: "outcome \<Rightarrow> promise" where
  "langTask result = (case result of Completed \<Rightarrow> Fulfilled | Threw \<Rightarrow> Fulfilled)"

text \<open>\<open>Promise.all\<close>: rejected as soon as one promise is, fulfilled when all are.\<close>

definition Promise_all :: "promise list \<Rightarrow> promise" where
  "Promise_all ps =
     (if list_ex (\<lambda>p. p = Rejected) ps then Rejected
      else if list_all (\<lambda>p. p = Fulfilled) ps then Fulfilled
      else Pending)"

definition errorMessage :: jsstring where
  "errorMessage = utf16 ''One or more translations failed. Please try again.''"

text \<open>What runs once \<open>await Promise.all(promises)\<close> is over: \<open>catch\<close> and \<open>finally\<close>
  (lines 86-95).\<close>

definition afterAwait :: "nat \<Rightarrow> promise \<Rightarrow> app \<Rightarrow> app" where
  "afterAwait requestId p s =
     (let s1 = (if p = Rejected
                then (if isCurrent s requestId then s\<lparr>error := Some errorMessage\<rparr> else s)
                else s)
      in if isCurrent s1 requestId then s1\<lparr>isStreaming := False\<rparr> else s1)"

text \<open>Line 67: one call of \<open>streamTranslation\<close> per target language, in order.\<close>

fun launch ::
  "jsstring \<Rightarrow> SupportedLanguage list \<Rightarrow> (SupportedLanguage \<times> jsstring) list
     \<Rightarrow> (SupportedLanguage \<times> promise) list \<times> (SupportedLanguage \<times> jsstring) list" where
  "launch text [] net = ([], net)"
| "launch text (lang # langs) net =
     (case streamTranslation_call text lang net of (r, net1) \<Rightarrow>
        (case launch text langs net1 of (ps, net2) \<Rightarrow>
           ((lang, (case r of None \<Rightarrow> Pending | Some result \<Rightarrow> langTask result)) # ps, net2)))"

text \<open>\<open>performTranslation\<close> up to its \<open>await\<close> (lines 42-84).\<close>

definition performTranslation :: "jsstring \<Rightarrow> app \<Rightarrow> app" where
  "performTranslation text s =
     (if trim text = []
      then s\<lparr>translations_state := emptyTranslations, isStreaming := False\<rparr>
      else
        (case beginGeneration s of (requestId, s1) \<Rightarrow>
           (case launch text TARGET_LANGUAGES (sent s1) of (ps, net) \<Rightarrow>
              (let s2 = s1\<lparr>isStreaming := True, error := None,
                           translations_state := emptyTranslations,
                           promises := (promises s1)(requestId \<mapsto> ps), sent := net\<rparr>
               in if Promise_all (map snd ps) = Pending then s2
                  else afterAwait requestId (Promise_all (map snd ps)) s2))))"

text \<open>The effect on the debounced input (lines 99-111).\<close>

definition App_effect :: "jsstring \<Rightarrow> app \<Rightarrow> app" where
  "App_effect debouncedInput s =
     (if trim debouncedInput \<noteq> [] then performTranslation debouncedInput s
      else s\<lparr>translations_state := emptyTranslations, isStreaming := False\<rparr>)"

subsection \<open>The streams in flight\<close>

text \<open>
  Between two awaits the code runs to completion, so an execution is a sequence of events:
  the debounced input changes, a stream in flight yields a chunk, ends, or throws.
  An event of a stream that is not in flight cannot happen and leaves the state as it is.
\<close>

datatype event =
    Input jsstring
  | StreamChunk nat SupportedLanguage "jsstring option"
  | StreamEnd nat SupportedLanguage
  | StreamError nat SupportedLanguage

definition streamPending :: "app \<Rightarrow> nat \<Rightarrow> SupportedLanguage \<Rightarrow> bool" where
  "streamPending s requestId lang =
     (case promises s requestId of
        None \<Rightarrow> False
      | Some ps \<Rightarrow> map_of ps lang = Some Pending)"

text \<open>
  A stream settles: its language's promise takes the value of \<open>langTask\<close>, and when that
  settles \<open>Promise.all\<close> the rest of \<open>performTranslation\<close> runs.
\<close>

definition settle :: "nat \<Rightarrow> SupportedLanguage \<Rightarrow> outcome \<Rightarrow> app \<Rightarrow> app" where
  "settle requestId lang result s =
     (case promises s requestId of
        None \<Rightarrow> s
      | Some ps \<Rightarrow>
          (let ps' = map (\<lambda>(l, p). if l = lang then (l, langTask result) else (l, p)) ps;
               s' = s\<lparr>promises := (promises s)(requestId \<mapsto> ps')\<rparr>
           in if Promise_all (map snd ps) = Pending \<and> Promise_all (map snd ps') \<noteq> Pending
              then afterAwait requestId (Promise_all (map snd ps')) s'
              else s'))"

fun step :: "event \<Rightarrow> app \<Rightarrow> app" where
  "step (Input debouncedInput) s = App_effect debouncedInput s"
| "step (StreamChunk requestId lang chunk_text) s =
     (if streamPending s requestId lang
      then chunkBody (onChunk requestId lang) chunk_text s else s)"
| "step (StreamEnd requestId lang) s =
     (if streamPending s requestId lang then settle requestId lang Completed s else s)"
| "step (StreamError requestId lang) s =
     (if streamPending s requestId lang then settle requestId lang Threw s else s)"

definition run :: "event list \<Rightarrow> app \<Rightarrow> app" where
  "run evs s = fold step evs s"

subsection \<open>Reading executions\<close>

text \<open>The event is a chunk of a stream launched by request \<open>g\<close>.\<close>

fun chunkOf :: "nat \<Rightarrow> event \<Rightarrow> bool" where
  "chunkOf g (StreamChunk requestId lang chunk_text) = (requestId = g)"
| "chunkOf g (Input debouncedInput) = False"
| "chunkOf g (StreamEnd requestId lang) = False"
| "chunkOf g (StreamError requestId lang) = False"



fun blankInput :: "event \<Rightarrow> bool" where
  "blankInput (Input debouncedInput) = (trim debouncedInput = [])"
| "blankInput (StreamChunk requestId lang chunk_text) = False"
| "blankInput (StreamEnd requestId lang) = False"
| "blankInput (StreamError requestId lang) = False"

text \<open>
  Two facts about the states an execution can reach: every array \<open>promises\<close> has one
  promise per target language, none of them rejected; and while a stream of the current
  request is pending, \<open>isStreaming\<close> is set.
\<close>

definition wellFormed :: "app \<Rightarrow> bool" where
  "wellFormed s =
     (\<forall>r ps. promises s r = Some ps \<longrightarrow>
        map fst ps = TARGET_LANGUAGES \<and> Rejected \<notin> set (map snd ps))"

definition gated :: "app \<Rightarrow> bool" where
  "gated s = ((\<exists>lang. streamPending s (currentRequestId s) lang) \<longrightarrow> isStreaming s)"

section \<open>App.tsx: useDebounce\<close>










section \<open>Facts about the model\<close>

lemma launch_nonblank:
  "trim text \<noteq> [] \<Longrightarrow>
   launch text langs net = (map (\<lambda>l. (l, Pending)) langs, net @ map (\<lambda>l. (l, text)) langs)"
  by (induction langs arbitrary: net) (simp_all add: streamTranslation_call_def)

lemma Promise_all_Pending_TARGET:
  "Promise_all (map snd (map (\<lambda>l. (l, Pending)) TARGET_LANGUAGES)) = Pending"
  by (simp add: Promise_all_def TARGET_LANGUAGES_def)

lemma performTranslation_nonblank:
  "trim text \<noteq> [] \<Longrightarrow>
   performTranslation text s =
     s\<lparr>currentRequestId := currentRequestId s + 1, isStreaming := True, error := None,
       translations_state := emptyTranslations,
       promises := (promises s)(currentRequestId s + 1 \<mapsto> map (\<lambda>l. (l, Pending)) TARGET_LANGUAGES),
       sent := sent s @ map (\<lambda>l. (l, text)) TARGET_LANGUAGES\<rparr>"
  using Promise_all_Pending_TARGET
  by (simp add: performTranslation_def beginGeneration_def launch_nonblank)

lemma performTranslation_blank:
  "trim text = [] \<Longrightarrow>
   performTranslation text s = s\<lparr>translations_state := emptyTranslations, isStreaming := False\<rparr>"
  by (simp add: performTranslation_def)

lemma afterAwait_counter: "currentRequestId (afterAwait r p s) = currentRequestId s"
  by (simp add: afterAwait_def Let_def isCurrent_def)

lemma settle_counter: "currentRequestId (settle r l out s) = currentRequestId s"
  by (simp add: settle_def Let_def afterAwait_counter split: option.splits)

lemma chunkBody_counter:
  "currentRequestId (chunkBody (onChunk r l) c s) = currentRequestId s"
  by (simp add: chunkBody_def onChunk_def split: option.splits)

lemma performTranslation_counter:
  "currentRequestId (performTranslation text s) =
     (if trim text = [] then currentRequestId s else currentRequestId s + 1)"
  by (simp add: performTranslation_nonblank performTranslation_blank)

lemma step_counter_mono: "currentRequestId s \<le> currentRequestId (step e s)"
  by (cases e)
    (simp_all add: App_effect_def performTranslation_counter settle_counter chunkBody_counter)

lemma stale_chunk_noop: "g < currentRequestId s \<Longrightarrow> chunkOf g e \<Longrightarrow> step e s = s"
  by (cases e) (simp_all add: chunkBody_def onChunk_def isCurrent_def split: option.splits)

lemma run_Cons: "run (e # evs) s = run evs (step e s)"
  by (simp add: run_def)

lemma run_Nil: "run [] s = s"
  by (simp add: run_def)

lemma run_drop_stale:
  "g < currentRequestId s \<Longrightarrow> run evs s = run (filter (\<lambda>e. \<not> chunkOf g e) evs) s"
proof (induction evs arbitrary: s)
  case Nil
  show ?case by simp
next
  case (Cons e evs)
  have later: "g < currentRequestId (step e s)"
    using Cons.prems step_counter_mono [of s e] by simp
  show ?case
  proof (cases "chunkOf g e")
    case True
    then have "step e s = s" using Cons.prems by (simp add: stale_chunk_noop)
    then show ?thesis using True Cons.IH [OF Cons.prems] by (simp add: run_Cons)
  next
    case False
    then show ?thesis using Cons.IH [OF later] by (simp add: run_Cons)
  qed
qed

lemma beginGenerations_eq:
  "beginGenerations K s =
     (map (\<lambda>i. currentRequestId s + Suc i) [0..<K], s\<lparr>currentRequestId := currentRequestId s + K\<rparr>)"
proof (induction K arbitrary: s)
  case 0
  show ?case by simp
next
  case (Suc K)
  have "[0..<Suc K] = 0 # map Suc [0..<K]"
    by (simp add: upt_rec [of 0 "Suc K"] map_Suc_upt del: upt_Suc)
  then show ?case
    by (simp add: Suc.IH beginGeneration_def comp_def del: upt_Suc)
qed

lemma fold_chunkBody_record:
  "fold (chunkBody recordCall) cs calls = calls @ filter (\<lambda>t. t \<noteq> []) (List.map_filter id cs)"
  by (induction cs arbitrary: calls)
    (simp_all add: chunkBody_def recordCall_def List.map_filter_simps split: option.splits)

lemma map_of_settled:
  "map_of (map (\<lambda>(l, p). if l = lang then (l, q) else (l, p)) ps) l' =
     (if l' = lang then (case map_of ps l' of None \<Rightarrow> None | Some p \<Rightarrow> Some q) else map_of ps l')"
  by (induction ps) auto

lemma afterAwait_promises: "promises (afterAwait r p s) = promises s"
  by (simp add: afterAwait_def Let_def)



lemma settle_promises:
  "promises s r = Some ps \<Longrightarrow>
   promises (settle r l out s) =
     (promises s)(r \<mapsto> map (\<lambda>(l', p). if l' = l then (l', langTask out) else (l', p)) ps)"
  by (simp add: settle_def Let_def afterAwait_promises)

lemma settle_streamPending_other:
  "\<not> (r' = r \<and> l' = l) \<Longrightarrow> streamPending (settle r l out s) r' l' = streamPending s r' l'"
proof (cases "promises s r")
  case None
  then show ?thesis by (simp add: settle_def)
next
  case (Some ps)
  assume "\<not> (r' = r \<and> l' = l)"
  then show ?thesis
    using Some by (auto simp add: streamPending_def settle_promises map_of_settled)
qed

lemma chunkBody_promises: "promises (chunkBody (onChunk r l) c s) = promises s"
  by (simp add: chunkBody_def onChunk_def split: option.splits)

lemma chunkBody_streamPending:
  "streamPending (chunkBody (onChunk r l) c s) r' l' = streamPending s r' l'"
  by (simp add: streamPending_def chunkBody_promises)

lemma langTask_Fulfilled: "langTask out = Fulfilled"
  by (cases out) (simp_all add: langTask_def)

lemma Promise_all_no_Rejected:
  "Rejected \<notin> set ps \<Longrightarrow> Promise_all ps = (if Pending \<in> set ps then Pending else Fulfilled)"
proof -
  assume h: "Rejected \<notin> set ps"
  have "(\<forall>p \<in> set ps. p = Fulfilled) \<longleftrightarrow> Pending \<notin> set ps"
  proof
    assume "\<forall>p \<in> set ps. p = Fulfilled"
    then show "Pending \<notin> set ps" by auto
  next
    assume np: "Pending \<notin> set ps"
    show "\<forall>p \<in> set ps. p = Fulfilled"
    proof
      fix p assume "p \<in> set ps"
      then have "p \<noteq> Rejected" "p \<noteq> Pending" using h np by auto
      then show "p = Fulfilled" by (cases p) simp_all
    qed
  qed
  then show ?thesis using h by (simp add: Promise_all_def list_ex_iff list_all_iff)
qed

lemma Pending_mem_map_of:
  "distinct (map fst ps) \<Longrightarrow> Pending \<in> set (map snd ps) \<longleftrightarrow> (\<exists>l. map_of ps l = Some Pending)"
  by (force simp add: map_of_eq_Some_iff)

lemma distinct_TARGET_LANGUAGES: "distinct TARGET_LANGUAGES"
  by (simp add: TARGET_LANGUAGES_def)

lemma settled_keys:
  "map fst (map (\<lambda>(l', p). if l' = l then (l', q) else (l', p)) ps) = map fst ps"
  by (induction ps) auto

lemma settled_no_Rejected:
  "Rejected \<notin> set (map snd ps) \<Longrightarrow> q \<noteq> Rejected \<Longrightarrow>
   Rejected \<notin> set (map snd (map (\<lambda>(l', p). if l' = l then (l', q) else (l', p)) ps))"
  by (induction ps) (auto split: if_splits)

lemma launched_keys: "map fst (map (\<lambda>l. (l, Pending)) langs) = langs"
  by (induction langs) simp_all

lemma launched_no_Rejected: "Rejected \<notin> set (map snd (map (\<lambda>l. (l, Pending)) langs))"
  by (induction langs) simp_all

lemma wellFormedI:
  "(\<And>r ps. promises s r = Some ps \<Longrightarrow>
      map fst ps = TARGET_LANGUAGES \<and> Rejected \<notin> set (map snd ps)) \<Longrightarrow> wellFormed s"
  unfolding wellFormed_def by blast

lemma wellFormedD:
  "wellFormed s \<Longrightarrow> promises s r = Some ps \<Longrightarrow>
     map fst ps = TARGET_LANGUAGES \<and> Rejected \<notin> set (map snd ps)"
  unfolding wellFormed_def by blast

lemma wellFormed_init: "wellFormed init"
  by (simp add: wellFormed_def init_def)

lemma wellFormed_settle:
  assumes wf: "wellFormed s"
  shows "wellFormed (settle r l out s)"
proof (cases "promises s r")
  case None
  then show ?thesis using wf by (simp add: settle_def)
next
  case (Some ps)
  let ?ps' = "map (\<lambda>(l', p). if l' = l then (l', langTask out) else (l', p)) ps"
  have old: "map fst ps = TARGET_LANGUAGES \<and> Rejected \<notin> set (map snd ps)"
    by (rule wellFormedD [OF wf Some])
  have k: "map fst ?ps' = TARGET_LANGUAGES"
    using old by (simp only: settled_keys)
  have v: "Rejected \<notin> set (map snd ?ps')"
    using old by (intro settled_no_Rejected) (simp_all add: langTask_Fulfilled)
  show ?thesis
  proof (rule wellFormedI)
    fix r' qs
    assume h: "promises (settle r l out s) r' = Some qs"
    show "map fst qs = TARGET_LANGUAGES \<and> Rejected \<notin> set (map snd qs)"
    proof (cases "r' = r")
      case True
      then have "qs = ?ps'" using h by (simp add: settle_promises [OF Some])
      then show ?thesis using k v by simp
    next
      case False
      then have "promises s r' = Some qs" using h by (simp add: settle_promises [OF Some])
      then show ?thesis by (rule wellFormedD [OF wf])
    qed
  qed
qed

lemma wellFormed_performTranslation:
  assumes wf: "wellFormed s"
  shows "wellFormed (performTranslation t s)"
proof (cases "trim t = []")
  case True
  then show ?thesis using wf by (simp add: performTranslation_blank wellFormed_def)
next
  case False
  show ?thesis
  proof (rule wellFormedI)
    fix r' qs
    assume h: "promises (performTranslation t s) r' = Some qs"
    show "map fst qs = TARGET_LANGUAGES \<and> Rejected \<notin> set (map snd qs)"
    proof (cases "r' = currentRequestId s + 1")
      case True
      then have "qs = map (\<lambda>l. (l, Pending)) TARGET_LANGUAGES"
        using h False by (simp add: performTranslation_nonblank)
      then show ?thesis by (auto simp add: comp_def)
    next
      case r': False
      then have "promises s r' = Some qs"
        using h False by (simp add: performTranslation_nonblank)
      then show ?thesis by (rule wellFormedD [OF wf])
    qed
  qed
qed

lemma wellFormed_step: "wellFormed s \<Longrightarrow> wellFormed (step e s)"
proof (cases e)
  case (Input t)
  assume wf: "wellFormed s"
  show ?thesis
  proof (cases "trim t = []")
    case True
    then show ?thesis using wf Input by (simp add: App_effect_def wellFormed_def)
  next
    case False
    then show ?thesis using wf Input
      by (simp add: App_effect_def wellFormed_performTranslation)
  qed
next
  case (StreamChunk r l c)
  assume "wellFormed s"
  then show ?thesis using StreamChunk by (simp add: wellFormed_def chunkBody_promises)
next
  case (StreamEnd r l)
  assume "wellFormed s"
  then show ?thesis using StreamEnd by (simp add: wellFormed_settle)
next
  case (StreamError r l)
  assume "wellFormed s"
  then show ?thesis using StreamError by (simp add: wellFormed_settle)
qed

lemma wellFormed_run: "wellFormed s \<Longrightarrow> wellFormed (run evs s)"
  by (induction evs arbitrary: s) (simp_all add: run_Nil run_Cons wellFormed_step)

lemma settle_streamPending:
  "streamPending (settle r l out s) r' l' = (streamPending s r' l' \<and> \<not> (r' = r \<and> l' = l))"
proof (cases "r' = r \<and> l' = l")
  case False
  then show ?thesis by (simp add: settle_streamPending_other)
next
  case True
  show ?thesis
  proof (cases "promises s r")
    case None
    then show ?thesis using True by (simp add: settle_def streamPending_def)
  next
    case (Some ps)
    then show ?thesis using True
      by (simp add: streamPending_def settle_promises map_of_settled langTask_Fulfilled
          split: option.splits)
  qed
qed

lemma afterAwait_isStreaming:
  "isStreaming (afterAwait r Fulfilled s) = (if isCurrent s r then False else isStreaming s)"
  by (simp add: afterAwait_def Let_def)

lemma settle_isStreaming:
  assumes wf: "wellFormed s" and pend: "streamPending s r l"
  shows "isStreaming (settle r l out s) =
           (if isCurrent s r \<and> (\<forall>l'. l' \<noteq> l \<longrightarrow> \<not> streamPending s r l') then False
            else isStreaming s)"
proof -
  obtain ps where ps: "promises s r = Some ps" and l: "map_of ps l = Some Pending"
    using pend by (auto simp add: streamPending_def split: option.splits)
  let ?ps' = "map (\<lambda>(l', p). if l' = l then (l', langTask out) else (l', p)) ps"
  have keys: "distinct (map fst ps)" and nr: "Rejected \<notin> set (map snd ps)"
    using wellFormedD [OF wf ps] distinct_TARGET_LANGUAGES by simp_all
  have keys': "distinct (map fst ?ps')" using keys by (simp only: settled_keys)
  have nr': "Rejected \<notin> set (map snd ?ps')"
    using nr by (intro settled_no_Rejected) (simp_all add: langTask_Fulfilled)
  have before: "Promise_all (map snd ps) = Pending"
    using Pending_mem_map_of [OF keys] l Promise_all_no_Rejected [OF nr] by auto
  have "Pending \<in> set (map snd ?ps') \<longleftrightarrow> (\<exists>l'. map_of ?ps' l' = Some Pending)"
    by (rule Pending_mem_map_of [OF keys'])
  also have "\<dots> \<longleftrightarrow> (\<exists>l'. l' \<noteq> l \<and> map_of ps l' = Some Pending)"
    by (auto simp add: map_of_settled langTask_Fulfilled split: option.splits if_splits)
  also have "\<dots> \<longleftrightarrow> (\<exists>l'. l' \<noteq> l \<and> streamPending s r l')"
    by (simp add: streamPending_def ps)
  finally have after: "Promise_all (map snd ?ps') =
      (if \<exists>l'. l' \<noteq> l \<and> streamPending s r l' then Pending else Fulfilled)"
    using Promise_all_no_Rejected [OF nr'] by simp
  show ?thesis
  proof (cases "\<exists>l'. l' \<noteq> l \<and> streamPending s r l'")
    case True
    then have "Promise_all (map snd ?ps') = Pending" using after by simp
    then have "settle r l out s = s\<lparr>promises := (promises s)(r \<mapsto> ?ps')\<rparr>"
      by (simp add: settle_def ps Let_def)
    then show ?thesis using True by auto
  next
    case False
    then have "Promise_all (map snd ?ps') = Fulfilled" using after by simp
    then have "settle r l out s = afterAwait r Fulfilled (s\<lparr>promises := (promises s)(r \<mapsto> ?ps')\<rparr>)"
      using before by (simp add: settle_def ps Let_def)
    then show ?thesis using False by (auto simp add: afterAwait_isStreaming isCurrent_def)
  qed
qed

lemma chunkBody_isStreaming: "isStreaming (chunkBody (onChunk r l) c s) = isStreaming s"
  by (simp add: chunkBody_def onChunk_def split: option.splits)

lemma gated_step:
  assumes wf: "wellFormed s" and g: "gated s" and nb: "\<not> blankInput e"
  shows "gated (step e s)"
proof (cases e)
  case (Input t)
  then have "trim t \<noteq> []" using nb by simp
  then show ?thesis using Input
    by (simp add: gated_def App_effect_def performTranslation_nonblank)
next
  case (StreamChunk r l c)
  then show ?thesis using g
    by (simp add: gated_def chunkBody_isStreaming chunkBody_streamPending chunkBody_counter)
next
  case (StreamEnd r l)
  then show ?thesis using g wf
    by (auto simp add: gated_def settle_isStreaming settle_streamPending settle_counter isCurrent_def)
next
  case (StreamError r l)
  then show ?thesis using g wf
    by (auto simp add: gated_def settle_isStreaming settle_streamPending settle_counter isCurrent_def)
qed

lemma gated_run:
  "wellFormed s \<Longrightarrow> gated s \<Longrightarrow> \<forall>e \<in> set evs. \<not> blankInput e \<Longrightarrow> gated (run evs s)"
  by (induction evs arbitrary: s) (simp_all add: run_Nil run_Cons wellFormed_step gated_step)







lemma afterAwait_error: "p \<noteq> Rejected \<Longrightarrow> error (afterAwait r p s) = error s"
  by (simp add: afterAwait_def Let_def)

lemma settle_error:
  assumes wf: "wellFormed s"
  shows "error (settle r l out s) = error s"
proof (cases "promises s r")
  case None
  then show ?thesis by (simp add: settle_def)
next
  case (Some ps)
  let ?ps' = "map (\<lambda>(l', p). if l' = l then (l', langTask out) else (l', p)) ps"
  have "Rejected \<notin> set (map snd ?ps')"
    using wellFormedD [OF wf Some] by (intro settled_no_Rejected) (simp_all add: langTask_Fulfilled)
  then have "Promise_all (map snd ?ps') \<noteq> Rejected"
    by (simp add: Promise_all_no_Rejected)
  then show ?thesis by (simp add: settle_def Some Let_def afterAwait_error)
qed

lemma chunkBody_error: "error (chunkBody (onChunk r l) c s) = error s"
  by (simp add: chunkBody_def onChunk_def split: option.splits)

lemma step_error: "wellFormed s \<Longrightarrow> error s = None \<Longrightarrow> error (step e s) = None"
proof (cases e)
  case (Input t)
  assume "error s = None"
  then show ?thesis using Input
    by (cases "trim t = []") (simp_all add: App_effect_def performTranslation_nonblank)
next
  case (StreamChunk r l c)
  assume "error s = None"
  then show ?thesis using StreamChunk by (simp add: chunkBody_error)
next
  case (StreamEnd r l)
  assume "wellFormed s" "error s = None"
  then show ?thesis using StreamEnd by (simp add: settle_error)
next
  case (StreamError r l)
  assume "wellFormed s" "error s = None"
  then show ?thesis using StreamError by (simp add: settle_error)
qed

lemma run_error: "wellFormed s \<Longrightarrow> error s = None \<Longrightarrow> error (run evs s) = None"
  by (induction evs arbitrary: s) (simp_all add: run_Nil run_Cons wellFormed_step step_error)

lemma error_slot_never_set: "error (run evs init) = None"
  by (rule run_error [OF wellFormed_init]) (simp add: init_def)

lemmas evaluate =
  run_def init_def App_effect_def performTranslation_def beginGeneration_def
  streamTranslation_call_def trim_def utf16_def isWhiteSpace_def TARGET_LANGUAGES_def
  streamPending_def chunkBody_def onChunk_def isCurrent_def settle_def langTask_def
  Promise_all_def afterAwait_def emptyTranslations_def

section \<open>The claims\<close>

text \<open>
  Claim C1. A chunk of a stream in flight is appended to the text of its language exactly
  when the request id of its stream is the value of the counter at that moment, and
  otherwise the state stays as it is. Hence, once a new generation has begun, the chunks
  of any generation \<open>G1\<close> issued before it have no effect, wherever they arrive in the
  rest of the execution: removing them all from the execution gives the same state.
\<close>

theorem stale_chunks_suppressed:
  "(streamPending s requestId lang \<and> chunkText \<noteq> [] \<longrightarrow>
      step (StreamChunk requestId lang (Some chunkText)) s =
        (if requestId = currentRequestId s
         then s\<lparr>translations_state :=
                  (translations_state s)(lang := translations_state s lang @ chunkText)\<rparr>
         else s))
   \<and> (trim text2 \<noteq> [] \<and> G1 \<le> currentRequestId s \<longrightarrow>
        run (Input text2 # evs) s = run (Input text2 # filter (\<lambda>e. \<not> chunkOf G1 e) evs) s)"
proof (intro conjI impI)
  assume "streamPending s requestId lang \<and> chunkText \<noteq> []"
  then show "step (StreamChunk requestId lang (Some chunkText)) s =
        (if requestId = currentRequestId s
         then s\<lparr>translations_state :=
                  (translations_state s)(lang := translations_state s lang @ chunkText)\<rparr>
         else s)"
    by (auto simp add: chunkBody_def onChunk_def isCurrent_def)
next
  assume h: "trim text2 \<noteq> [] \<and> G1 \<le> currentRequestId s"
  then have "G1 < currentRequestId (step (Input text2) s)"
    by (simp add: App_effect_def performTranslation_counter)
  then show "run (Input text2 # evs) s = run (Input text2 # filter (\<lambda>e. \<not> chunkOf G1 e) evs) s"
    using run_drop_stale [of G1 "step (Input text2) s" evs] by (simp add: run_Cons)
qed

theorem stale_chunks_suppressed_witness:
  "streamPending (run [Input (utf16 ''a'')] init) 1 SPANISH \<and> utf16 ''Hola'' \<noteq> []
   \<and> trim (utf16 ''b'') \<noteq> [] \<and> 1 \<le> currentRequestId (run [Input (utf16 ''a'')] init)
   \<and> translations_state
        (step (StreamChunk 1 SPANISH (Some (utf16 ''Hola''))) (run [Input (utf16 ''a'')] init))
        SPANISH = utf16 ''Hola''
   \<and> run [Input (utf16 ''b''), StreamChunk 1 SPANISH (Some (utf16 ''Hola'')),
           StreamChunk 2 SPANISH (Some (utf16 ''Adios'')),
           StreamChunk 1 SPANISH (Some (utf16 '' mundo''))]
        (run [Input (utf16 ''a'')] init)
      = run [Input (utf16 ''b''), StreamChunk 2 SPANISH (Some (utf16 ''Adios''))]
          (run [Input (utf16 ''a'')] init)"
proof -
  let ?s = "run [Input (utf16 ''a'')] init"
  have h1: "streamPending ?s 1 SPANISH \<and> utf16 ''Hola'' \<noteq> []"
    by (simp add: evaluate)
  have h2: "trim (utf16 ''b'') \<noteq> [] \<and> 1 \<le> currentRequestId ?s"
    by (simp add: evaluate)
  have cur: "currentRequestId ?s = 1" "translations_state ?s SPANISH = []"
    by (simp_all add: evaluate)
  note inst = stale_chunks_suppressed [of ?s 1 SPANISH "utf16 ''Hola''" "utf16 ''b''" 1
      "[StreamChunk 1 SPANISH (Some (utf16 ''Hola'')),
        StreamChunk 2 SPANISH (Some (utf16 ''Adios'')),
        StreamChunk 1 SPANISH (Some (utf16 '' mundo''))]"]
  have c1: "translations_state
        (step (StreamChunk 1 SPANISH (Some (utf16 ''Hola''))) ?s) SPANISH = utf16 ''Hola''"
    using inst h1 cur by simp
  have c2: "run [Input (utf16 ''b''), StreamChunk 1 SPANISH (Some (utf16 ''Hola'')),
           StreamChunk 2 SPANISH (Some (utf16 ''Adios'')),
           StreamChunk 1 SPANISH (Some (utf16 '' mundo''))] ?s
      = run [Input (utf16 ''b''), StreamChunk 2 SPANISH (Some (utf16 ''Adios''))] ?s"
    using inst h2 by simp
  show ?thesis using h1 h2 c1 c2 by blast
qed

text \<open>
  Claim C2, as amended. A generation with non-blank input sets \<open>isStreaming\<close> when it
  starts. In every execution that follows, whatever the order of its events: if no blank
  input has been submitted in it, then as long as that generation is the current one and
  one of its streams has not settled, \<open>isStreaming\<close> is set; and in any case, blank
  inputs or not, when the last of its streams settles, by ending or by throwing,
  \<open>isStreaming\<close> is cleared if the generation is still the current one and is left as it
  is otherwise.
\<close>

theorem isStreaming_until_all_settled:
  assumes nonblank: "trim text \<noteq> []"
    and s1: "s1 = step (Input text) (run evs0 init)"
    and s: "s = run evs s1"
  shows "isStreaming s1
     \<and> ((\<forall>e \<in> set evs. \<not> blankInput e)
          \<and> isCurrent s (currentRequestId s1) \<and> (\<exists>lang. streamPending s (currentRequestId s1) lang)
          \<longrightarrow> isStreaming s)
     \<and> (\<forall>lang e. streamPending s (currentRequestId s1) lang
            \<and> (\<forall>l. l \<noteq> lang \<longrightarrow> \<not> streamPending s (currentRequestId s1) l)
            \<and> (e = StreamEnd (currentRequestId s1) lang \<or> e = StreamError (currentRequestId s1) lang)
          \<longrightarrow> isStreaming (step e s) =
                (if isCurrent s (currentRequestId s1) then False else isStreaming s))"
proof (intro conjI allI impI)
  show "isStreaming s1"
    using nonblank by (simp add: s1 App_effect_def performTranslation_nonblank)
next
  have wf1: "wellFormed s1"
    unfolding s1 by (intro wellFormed_step wellFormed_run wellFormed_init)
  have "gated s1"
    using nonblank by (simp add: s1 gated_def App_effect_def performTranslation_nonblank)
  then have g1: "gated s1" .
  assume h: "(\<forall>e \<in> set evs. \<not> blankInput e)
          \<and> isCurrent s (currentRequestId s1) \<and> (\<exists>lang. streamPending s (currentRequestId s1) lang)"
  then have noblank: "\<forall>e \<in> set evs. \<not> blankInput e" by blast
  have g: "gated s" unfolding s by (rule gated_run [OF wf1 g1 noblank])
  show "isStreaming s" using g h by (auto simp add: gated_def isCurrent_def)
next
  fix lang e
  have wf: "wellFormed s"
    unfolding s s1 by (intro wellFormed_step wellFormed_run wellFormed_init)
  assume "streamPending s (currentRequestId s1) lang
            \<and> (\<forall>l. l \<noteq> lang \<longrightarrow> \<not> streamPending s (currentRequestId s1) l)
            \<and> (e = StreamEnd (currentRequestId s1) lang \<or> e = StreamError (currentRequestId s1) lang)"
  then show "isStreaming (step e s) =
                (if isCurrent s (currentRequestId s1) then False else isStreaming s)"
    using settle_isStreaming [OF wf, of "currentRequestId s1" lang Completed]
      settle_isStreaming [OF wf, of "currentRequestId s1" lang Threw]
    by auto
qed

theorem isStreaming_until_all_settled_witness:
  "trim (utf16 ''hi'') \<noteq> []
   \<and> list_all (\<lambda>e. \<not> blankInput e)
        [StreamEnd 1 SPANISH, StreamError 1 ENGLISH, StreamEnd 1 JAPANESE]
   \<and> isStreaming (step (Input (utf16 ''hi'')) (run [] init))
   \<and> isCurrent (run [StreamEnd 1 SPANISH, StreamError 1 ENGLISH, StreamEnd 1 JAPANESE]
                  (step (Input (utf16 ''hi'')) (run [] init))) 1
   \<and> streamPending (run [StreamEnd 1 SPANISH, StreamError 1 ENGLISH, StreamEnd 1 JAPANESE]
                  (step (Input (utf16 ''hi'')) (run [] init))) 1 CHINESE_TRADITIONAL
   \<and> isStreaming (run [StreamEnd 1 SPANISH, StreamError 1 ENGLISH, StreamEnd 1 JAPANESE]
                  (step (Input (utf16 ''hi'')) (run [] init)))
   \<and> \<not> isStreaming (step (StreamEnd 1 CHINESE_TRADITIONAL)
          (run [StreamEnd 1 SPANISH, StreamError 1 ENGLISH, StreamEnd 1 JAPANESE]
             (step (Input (utf16 ''hi'')) (run [] init))))"
proof -
  let ?s1 = "step (Input (utf16 ''hi'')) (run [] init)"
  let ?evs = "[StreamEnd 1 SPANISH, StreamError 1 ENGLISH, StreamEnd 1 JAPANESE]"
  let ?s = "run ?evs ?s1"
  have h1: "trim (utf16 ''hi'') \<noteq> []" by (simp add: evaluate)
  have h2: "\<forall>e \<in> set ?evs. \<not> blankInput e" by simp
  have h2': "list_all (\<lambda>e. \<not> blankInput e) ?evs" by simp
  have cur: "currentRequestId ?s1 = 1" by (simp add: evaluate)
  have p: "isCurrent ?s 1" "streamPending ?s 1 CHINESE_TRADITIONAL"
    by (simp_all add: evaluate)
  have others: "\<forall>l. l \<noteq> CHINESE_TRADITIONAL \<longrightarrow> \<not> streamPending ?s 1 l"
  proof (intro allI impI)
    fix l :: SupportedLanguage
    assume "l \<noteq> CHINESE_TRADITIONAL"
    then show "\<not> streamPending ?s 1 l" by (cases l) (simp_all add: evaluate)
  qed
  note inst = isStreaming_until_all_settled [OF h1 refl refl, of "[]" ?evs]
  have c1: "isStreaming ?s1" using inst by blast
  have c2: "isStreaming ?s" using inst h2 p cur by auto
  have third: "\<And>lang e. streamPending ?s 1 lang \<Longrightarrow>
      (\<forall>l. l \<noteq> lang \<longrightarrow> \<not> streamPending ?s 1 l) \<Longrightarrow> e = StreamEnd 1 lang \<Longrightarrow>
      isStreaming (step e ?s) = (if isCurrent ?s 1 then False else isStreaming ?s)"
    using inst unfolding cur by blast
  have "isStreaming (step (StreamEnd 1 CHINESE_TRADITIONAL) ?s) =
          (if isCurrent ?s 1 then False else isStreaming ?s)"
    by (rule third [OF p(2) others refl])
  then have c3: "\<not> isStreaming (step (StreamEnd 1 CHINESE_TRADITIONAL) ?s)"
    using p by simp
  show ?thesis using h1 h2' c1 p c2 c3 by blast
qed

text \<open>
  Claim C2 as it was stated fails in two ways. A generation can be superseded: the second
  generation below completes while the four streams of the first are still pending, and
  \<open>isStreaming\<close> is cleared although no stream of the first generation has settled. And
  a blank input clears \<open>isStreaming\<close> at once, while the four streams of the generation
  before it are pending.
\<close>

theorem isStreaming_cleared_before_settled:
  "\<not> isStreaming
       (run [Input (utf16 ''a''), Input (utf16 ''b''), StreamEnd 2 CHINESE_TRADITIONAL,
             StreamEnd 2 ENGLISH, StreamEnd 2 JAPANESE, StreamEnd 2 SPANISH] init)
   \<and> list_all
       (streamPending
          (run [Input (utf16 ''a''), Input (utf16 ''b''), StreamEnd 2 CHINESE_TRADITIONAL,
                StreamEnd 2 ENGLISH, StreamEnd 2 JAPANESE, StreamEnd 2 SPANISH] init) 1)
       TARGET_LANGUAGES
   \<and> \<not> isStreaming (run [Input (utf16 ''a''), Input (utf16 '' '')] init)
   \<and> list_all (streamPending (run [Input (utf16 ''a''), Input (utf16 '' '')] init) 1)
       TARGET_LANGUAGES"
  by (simp add: evaluate)

text \<open>
  Claim C3. The claim says that every call of the translate operation takes a fresh
  generation id first, so that a blank input supersedes the generation in flight. The code
  returns on blank text before it reaches the increment: after the blank input below the
  counter still holds the id of the generation in flight, and a chunk of that generation
  that arrives later is appended to the text that the blank input has just cleared.
\<close>

theorem blank_input_keeps_generation:
  "currentRequestId (run [Input (utf16 ''hi'')] init) = 1
   \<and> currentRequestId (performTranslation (utf16 ''  '') (run [Input (utf16 ''hi'')] init)) = 1
   \<and> currentRequestId (run [Input (utf16 ''hi''), Input (utf16 ''  '')] init) = 1
   \<and> isCurrent (run [Input (utf16 ''hi''), Input (utf16 ''  '')] init) 1
   \<and> translations_state (run [Input (utf16 ''hi''), Input (utf16 ''  '')] init) SPANISH = []
   \<and> translations_state
        (run [Input (utf16 ''hi''), Input (utf16 ''  ''),
              StreamChunk 1 SPANISH (Some (utf16 ''Hola''))] init) SPANISH = utf16 ''Hola''"
  by (simp add: evaluate)

text \<open>
  Claim C4. The claim says that a stream that fails while its generation is current sets
  the error slot. The failure is caught at line 78 and not passed on, so the promise of
  that language is fulfilled, \<open>Promise.all\<close> is fulfilled, and the \<open>catch\<close> of line 86
  that sets the message does not run. In the execution below the Spanish stream throws
  and the other three complete: the English text is whole, the generation is still the
  current one, \<open>isStreaming\<close> is cleared, and \<open>error\<close> is \<open>None\<close>.
\<close>

theorem failed_stream_leaves_error_unset:
  "error
     (run [Input (utf16 ''hi''), StreamChunk 1 ENGLISH (Some (utf16 ''Hello'')),
           StreamError 1 SPANISH, StreamChunk 1 ENGLISH (Some (utf16 '' there'')),
           StreamEnd 1 ENGLISH, StreamEnd 1 CHINESE_TRADITIONAL, StreamEnd 1 JAPANESE] init) = None
   \<and> isCurrent
     (run [Input (utf16 ''hi''), StreamChunk 1 ENGLISH (Some (utf16 ''Hello'')),
           StreamError 1 SPANISH, StreamChunk 1 ENGLISH (Some (utf16 '' there'')),
           StreamEnd 1 ENGLISH, StreamEnd 1 CHINESE_TRADITIONAL, StreamEnd 1 JAPANESE] init) 1
   \<and> \<not> isStreaming
     (run [Input (utf16 ''hi''), StreamChunk 1 ENGLISH (Some (utf16 ''Hello'')),
           StreamError 1 SPANISH, StreamChunk 1 ENGLISH (Some (utf16 '' there'')),
           StreamEnd 1 ENGLISH, StreamEnd 1 CHINESE_TRADITIONAL, StreamEnd 1 JAPANESE] init)
   \<and> translations_state
     (run [Input (utf16 ''hi''), StreamChunk 1 ENGLISH (Some (utf16 ''Hello'')),
           StreamError 1 SPANISH, StreamChunk 1 ENGLISH (Some (utf16 '' there'')),
           StreamEnd 1 ENGLISH, StreamEnd 1 CHINESE_TRADITIONAL, StreamEnd 1 JAPANESE] init)
     ENGLISH = utf16 ''Hello there''"
  by (simp add: evaluate)




text \<open>
  Claim C6. \<open>K\<close> successive increments of the request counter give \<open>K\<close> identifiers, each
  one more than the one before, hence strictly increasing; and after them the is-current
  test holds for an identifier exactly when it is the last one issued.
\<close>

theorem generation_ids_increase:
  "beginGenerations K s = (ids, s') \<Longrightarrow>
     length ids = K \<and> sorted_wrt (<) ids \<and>
     (\<forall>i < K. ids ! i = currentRequestId s + i + 1) \<and>
     (0 < K \<longrightarrow> (\<forall>requestId. isCurrent s' requestId \<longleftrightarrow> requestId = last ids))"
proof -
  assume h: "beginGenerations K s = (ids, s')"
  have ids: "ids = map (\<lambda>i. currentRequestId s + Suc i) [0..<K]"
    and s': "s' = s\<lparr>currentRequestId := currentRequestId s + K\<rparr>"
    using h by (simp_all add: beginGenerations_eq)
  have 1: "length ids = K" by (simp add: ids)
  have 2: "sorted_wrt (<) ids"
    by (simp add: ids sorted_wrt_map sorted_wrt_upt)
  have 3: "\<forall>i < K. ids ! i = currentRequestId s + i + 1" by (simp add: ids)
  have 4: "0 < K \<longrightarrow> (\<forall>requestId. isCurrent s' requestId \<longleftrightarrow> requestId = last ids)"
  proof
    assume "0 < K"
    then have "last ids = currentRequestId s + K"
      by (cases K) (simp_all add: ids)
    then show "\<forall>requestId. isCurrent s' requestId \<longleftrightarrow> requestId = last ids"
      by (auto simp add: isCurrent_def s')
  qed
  show ?thesis using 1 2 3 4 by blast
qed

theorem generation_ids_increase_witness:
  "beginGenerations 3 init = ([1, 2, 3], init\<lparr>currentRequestId := 3\<rparr>)
   \<and> length [1, 2, 3 :: nat] = 3 \<and> sorted_wrt (<) [1, 2, 3 :: nat]
   \<and> isCurrent (init\<lparr>currentRequestId := 3\<rparr>) 3
   \<and> \<not> isCurrent (init\<lparr>currentRequestId := 3\<rparr>) 2"
proof -
  have h: "beginGenerations 3 init = ([1, 2, 3], init\<lparr>currentRequestId := 3\<rparr>)"
    by (simp add: eval_nat_numeral beginGeneration_def init_def)
  note inst = generation_ids_increase [OF h]
  have c1: "length [1, 2, 3 :: nat] = 3 \<and> sorted_wrt (<) [1, 2, 3 :: nat]"
    using inst by blast
  have "\<forall>requestId. isCurrent (init\<lparr>currentRequestId := 3\<rparr>) requestId \<longleftrightarrow>
          requestId = last [1, 2, 3]"
    using inst by simp
  then have c2: "isCurrent (init\<lparr>currentRequestId := 3\<rparr>) 3
      \<and> \<not> isCurrent (init\<lparr>currentRequestId := 3\<rparr>) 2"
    by simp
  show ?thesis using h c1 c2 by blast
qed

text \<open>
  Claim C7. Whatever text has accumulated, a blank value of the debounced input sets the
  text of every language to the empty string and clears \<open>isStreaming\<close>, and no stream is
  started: no request is sent and no promise is created. The same holds for a call of
  \<open>performTranslation\<close> with blank text, and \<open>streamTranslation\<close> itself returns at once
  on blank text without sending.
\<close>

theorem blank_input_resets:
  "trim text = [] \<Longrightarrow>
     (\<forall>lang. translations_state (step (Input text) s) lang = [])
   \<and> \<not> isStreaming (step (Input text) s)
   \<and> sent (step (Input text) s) = sent s
   \<and> promises (step (Input text) s) = promises s
   \<and> (\<forall>lang. translations_state (performTranslation text s) lang = [])
   \<and> \<not> isStreaming (performTranslation text s)
   \<and> sent (performTranslation text s) = sent s
   \<and> promises (performTranslation text s) = promises s
   \<and> streamTranslation_call text lang (sent s) = (Some Completed, sent s)"
  by (simp add: performTranslation_blank App_effect_def emptyTranslations_def
      streamTranslation_call_def)

theorem blank_input_resets_witness:
  "trim (utf16 ''  '') = []
   \<and> translations_state
        (run [Input (utf16 ''hi''), StreamChunk 1 SPANISH (Some (utf16 ''Hola''))] init)
        SPANISH = utf16 ''Hola''
   \<and> translations_state
        (step (Input (utf16 ''  ''))
           (run [Input (utf16 ''hi''), StreamChunk 1 SPANISH (Some (utf16 ''Hola''))] init))
        SPANISH = []
   \<and> \<not> isStreaming
        (step (Input (utf16 ''  ''))
           (run [Input (utf16 ''hi''), StreamChunk 1 SPANISH (Some (utf16 ''Hola''))] init))
   \<and> sent
        (step (Input (utf16 ''  ''))
           (run [Input (utf16 ''hi''), StreamChunk 1 SPANISH (Some (utf16 ''Hola''))] init))
      = sent (run [Input (utf16 ''hi''), StreamChunk 1 SPANISH (Some (utf16 ''Hola''))] init)"
proof -
  let ?s = "run [Input (utf16 ''hi''), StreamChunk 1 SPANISH (Some (utf16 ''Hola''))] init"
  have h: "trim (utf16 ''  '') = []" by (simp add: evaluate)
  have before: "translations_state ?s SPANISH = utf16 ''Hola''" by (simp add: evaluate)
  note inst = blank_input_resets [OF h, of ?s SPANISH]
  have c1: "translations_state (step (Input (utf16 ''  '')) ?s) SPANISH = []"
    using inst by blast
  have c2: "\<not> isStreaming (step (Input (utf16 ''  '')) ?s)" using inst by blast
  have c3: "sent (step (Input (utf16 ''  '')) ?s) = sent ?s" using inst by blast
  show ?thesis using h before c1 c2 c3 by blast
qed



text \<open>
  Claim C9. The calls that \<open>streamTranslation\<close> makes of its callback are, in order, the
  non-empty texts among the chunks of the stream, chunks without text being skipped; the
  callback is never called with the empty string; and for blank input text the operation
  returns at once and calls nothing.
\<close>

theorem streamTranslation_calls_nonempty:
  "snd (streamTranslation text targetLanguage recordCall stream calls) =
     calls @ (if trim text = [] then [] else filter (\<lambda>t. t \<noteq> []) (List.map_filter id (fst stream)))
   \<and> [] \<notin> set (snd (streamTranslation text targetLanguage recordCall stream []))
   \<and> (trim text = [] \<longrightarrow> streamTranslation text targetLanguage recordCall stream [] = (Completed, []))"
  by (simp add: streamTranslation_def fold_chunkBody_record)

theorem streamTranslation_calls_nonempty_witness:
  "trim (utf16 '' '') = []
   \<and> streamTranslation (utf16 '' '') SPANISH recordCall
        ([Some (utf16 ''Hola'')], Completed) [] = (Completed, [])
   \<and> snd (streamTranslation (utf16 ''hi'') SPANISH recordCall
        ([Some (utf16 ''Hola''), None, Some [], Some (utf16 '' mundo'')], Threw) [])
      = [utf16 ''Hola'', utf16 '' mundo'']"
proof -
  have h: "trim (utf16 '' '') = []" by (simp add: evaluate)
  have c1: "streamTranslation (utf16 '' '') SPANISH recordCall
        ([Some (utf16 ''Hola'')], Completed) [] = (Completed, [])"
    using streamTranslation_calls_nonempty
      [of "utf16 '' ''" SPANISH "([Some (utf16 ''Hola'')], Completed)" "[]"] h
    by blast
  have h': "trim (utf16 ''hi'') \<noteq> []" by (simp add: evaluate)
  have c2: "snd (streamTranslation (utf16 ''hi'') SPANISH recordCall
        ([Some (utf16 ''Hola''), None, Some [], Some (utf16 '' mundo'')], Threw) [])
      = [utf16 ''Hola'', utf16 '' mundo'']"
    using streamTranslation_calls_nonempty
      [of "utf16 ''hi''" SPANISH
        "([Some (utf16 ''Hola''), None, Some [], Some (utf16 '' mundo'')], Threw)" "[]"] h'
    by (simp add: List.map_filter_simps utf16_def)
  show ?thesis using h c1 c2 by blast
qed

text \<open>
  Claim C10. A call of \<open>performTranslation\<close> with blank text, and likewise a blank value of
  the debounced input, writes the texts and \<open>isStreaming\<close> and nothing else: the counter,
  the error slot and the streams in flight are as before. So an error message that was
  there is still there, the is-current test gives what it gave, and a chunk of the
  generation that was current is still appended after the reset.
\<close>

theorem blank_input_frame:
  "trim text = [] \<Longrightarrow>
     performTranslation text s = s\<lparr>translations_state := emptyTranslations, isStreaming := False\<rparr>
   \<and> step (Input text) s = s\<lparr>translations_state := emptyTranslations, isStreaming := False\<rparr>
   \<and> currentRequestId (performTranslation text s) = currentRequestId s
   \<and> error (performTranslation text s) = error s
   \<and> isCurrent (performTranslation text s) requestId = isCurrent s requestId
   \<and> streamPending (performTranslation text s) requestId lang = streamPending s requestId lang
   \<and> translations_state
        (onChunk (currentRequestId s) lang chunk (performTranslation text s)) lang = chunk"
  by (simp add: performTranslation_blank App_effect_def isCurrent_def streamPending_def
      onChunk_def emptyTranslations_def)

theorem blank_input_frame_witness:
  "trim (utf16 ''  '') = []
   \<and> error (performTranslation (utf16 ''  '')
        ((run [Input (utf16 ''hi'')] init)\<lparr>error := Some errorMessage\<rparr>)) = Some errorMessage
   \<and> currentRequestId (performTranslation (utf16 ''  '')
        ((run [Input (utf16 ''hi'')] init)\<lparr>error := Some errorMessage\<rparr>)) = 1
   \<and> isCurrent (performTranslation (utf16 ''  '')
        ((run [Input (utf16 ''hi'')] init)\<lparr>error := Some errorMessage\<rparr>)) 1
   \<and> translations_state
        (onChunk 1 SPANISH (utf16 ''Hola'') (performTranslation (utf16 ''  '')
           ((run [Input (utf16 ''hi'')] init)\<lparr>error := Some errorMessage\<rparr>))) SPANISH
      = utf16 ''Hola''"
proof -
  let ?s = "(run [Input (utf16 ''hi'')] init)\<lparr>error := Some errorMessage\<rparr>"
  have h: "trim (utf16 ''  '') = []" by (simp add: evaluate)
  have cur: "currentRequestId ?s = 1" "isCurrent ?s 1" by (simp_all add: evaluate)
  note inst = blank_input_frame [OF h, of ?s 1 SPANISH "utf16 ''Hola''"]
  have "error (performTranslation (utf16 ''  '') ?s) = error ?s"
    using inst by blast
  then have c1: "error (performTranslation (utf16 ''  '') ?s) = Some errorMessage"
    by simp
  have "currentRequestId (performTranslation (utf16 ''  '') ?s) = currentRequestId ?s"
    using inst by blast
  then have c2: "currentRequestId (performTranslation (utf16 ''  '') ?s) = 1"
    unfolding cur(1) .
  have c3: "isCurrent (performTranslation (utf16 ''  '') ?s) 1"
    using inst cur(2) by blast
  have "translations_state
        (onChunk (currentRequestId ?s) SPANISH (utf16 ''Hola'')
           (performTranslation (utf16 ''  '') ?s)) SPANISH
      = utf16 ''Hola''"
    using inst by blast
  then have c4: "translations_state
        (onChunk 1 SPANISH (utf16 ''Hola'') (performTranslation (utf16 ''  '') ?s)) SPANISH
      = utf16 ''Hola''"
    unfolding cur(1) .
  show ?thesis using h c1 c2 c3 c4 by blast
qed

end
